theory Spec2Isabelle
  imports Main "HOL-Library.Word"
begin

unbundle bit_operations_syntax

section \<open>Machine types and C arrays\<close>

text \<open>
  The interpreter of \<^verbatim>\<open>chip8.c\<close> works on \<^verbatim>\<open>uint8_t\<close>, \<^verbatim>\<open>uint16_t\<close> and
  \<^verbatim>\<open>int\<close> values; they are words of 8, 16 and 32 bits. A C array is a list of its
  declared length. C gives no meaning to an access outside the array, and none of the
  functions below checks an index against the array it uses, so every access goes
  through \<open>array_read\<close> and \<open>array_write\<close>, whose result \<open>None\<close> stands for the
  undefined behaviour of an index that is not inside the array.
\<close>

type_synonym u8 = "8 word"
type_synonym u16 = "16 word"
type_synonym c_int = "32 word"

definition array_read :: "'a list \<Rightarrow> nat \<Rightarrow> 'a option" where
  "array_read xs i = (if i < length xs then Some (xs ! i) else None)"

definition array_write :: "'a list \<Rightarrow> nat \<Rightarrow> 'a \<Rightarrow> 'a list option" where
  "array_write xs i v = (if i < length xs then Some (xs[i := v]) else None)"

text \<open>
  A \<^verbatim>\<open>for\<close> loop over a fixed range of indices, whose body may run into an access
  outside an array: the loop stops there with \<open>None\<close>.
\<close>

fun for_loop :: "nat list \<Rightarrow> (nat \<Rightarrow> 's \<Rightarrow> 's option) \<Rightarrow> 's \<Rightarrow> 's option" where
  "for_loop [] body s = Some s"
| "for_loop (i # is) body s =
     (case body i s of None \<Rightarrow> None | Some s' \<Rightarrow> for_loop is body s')"

text \<open>
  The three \<^verbatim>\<open>printf\<close> calls of the program, with the value each one formats. A
  function that can print returns the list of what it printed next to its result.
\<close>

datatype debug =
    NoMoreSpace u16        \<comment> \<open>\<^verbatim>\<open>DEBUG: no more space on the stack: %d\<close>\<close>
  | NothingLeftToPop u16   \<comment> \<open>\<^verbatim>\<open>DEBUG: nothing left to pop on the stack: %d\<close>\<close>
  | UnsupportedKey         \<comment> \<open>\<^verbatim>\<open>DEBUG: unsupported key pressed\<close>\<close>

section \<open>The font table\<close>

definition fontData :: "u8 list list" where
  "fontData =
    [[0xF0, 0x90, 0x90, 0x90, 0xF0],
     [0x20, 0x60, 0x20, 0x20, 0x70],
     [0xF0, 0x10, 0xF0, 0x80, 0xF0],
     [0xF0, 0x10, 0xF0, 0x10, 0xF0],
     [0x90, 0x90, 0xF0, 0x10, 0x10],
     [0xF0, 0x80, 0xF0, 0x10, 0xF0],
     [0xF0, 0x80, 0xF0, 0x90, 0xF0],
     [0xF0, 0x10, 0x20, 0x40, 0x40],
     [0xF0, 0x90, 0xF0, 0x90, 0xF0],
     [0xF0, 0x90, 0xF0, 0x10, 0xF0],
     [0xF0, 0x90, 0xF0, 0x90, 0x90],
     [0xE0, 0x90, 0xE0, 0x90, 0xE0],
     [0xF0, 0x80, 0x80, 0x80, 0xF0],
     [0xE0, 0x90, 0x90, 0x90, 0xE0],
     [0xF0, 0x80, 0xF0, 0x80, 0xF0],
     [0xF0, 0x80, 0xF0, 0x80, 0x80]]"

text \<open>
  \<^verbatim>\<open>add_fonts_to_mem\<close>: the two nested loops store glyph \<open>ii\<close>, byte \<open>jj\<close> at
  \<^verbatim>\<open>mem[80 + ii * 5 + jj]\<close>. The function receives a bare pointer, so the length
  of the array behind it is the caller's.
\<close>

definition add_fonts_to_mem :: "u8 list \<Rightarrow> u8 list option" where
  "add_fonts_to_mem ram =
     for_loop [0..<16] (\<lambda>ii.
       for_loop [0..<5] (\<lambda>jj r.
         array_write r (80 + ii * 5 + jj) (fontData ! ii ! jj))) ram"

text \<open>The eighty bytes of an array that start at index 80.\<close>

definition glyph_bytes :: "u8 list \<Rightarrow> u8 list" where
  "glyph_bytes ram = take 80 (drop 80 ram)"

section \<open>The stack\<close>

text \<open>
  \<^verbatim>\<open>struct stack { uint16_t m[4096]; uint16_t needle; }\<close>. A stack value of the C
  type has exactly 4096 slots.
\<close>

record stack =
  m :: "u16 list"
  needle :: u16

definition stack_ok :: "stack \<Rightarrow> bool" where
  "stack_ok s = (length (m s) = 4096)"

definition push_stack :: "stack \<Rightarrow> u16 \<Rightarrow> (stack \<times> debug list) option" where
  "push_stack s val =
     (if needle s < 0xFFFF then
        (case array_write (m s) (unat (needle s)) val of
           None \<Rightarrow> None
         | Some m' \<Rightarrow> Some (s\<lparr>m := m', needle := needle s + 1\<rparr>, []))
      else Some (s, [NoMoreSpace (needle s)]))"

text \<open>
  \<^verbatim>\<open>pop_stack\<close> reads \<^verbatim>\<open>s->m[s->needle]\<close> first and decrements the needle
  afterwards; on an empty stack it prints and returns 0.
\<close>

definition pop_stack :: "stack \<Rightarrow> (u16 \<times> stack \<times> debug list) option" where
  "pop_stack s =
     (if needle s > 0 then
        (case array_read (m s) (unat (needle s)) of
           None \<Rightarrow> None
         | Some popped \<Rightarrow> Some (popped, s\<lparr>needle := needle s - 1\<rparr>, []))
      else Some (0, s, [NothingLeftToPop (needle s)]))"

text \<open>A run of pushes, one after the other, collecting what they print.\<close>

fun push_all :: "stack \<Rightarrow> u16 list \<Rightarrow> (stack \<times> debug list) option" where
  "push_all s [] = Some (s, [])"
| "push_all s (v # vs) =
     (case push_stack s v of
        None \<Rightarrow> None
      | Some (s', out) \<Rightarrow>
          (case push_all s' vs of
             None \<Rightarrow> None
           | Some (s'', out') \<Rightarrow> Some (s'', out @ out')))"

section \<open>Keyboard mapping\<close>

text \<open>
  \<^verbatim>\<open>char_to_val\<close> switches on an \<^verbatim>\<open>int\<close>; the case labels are character
  constants, which C reads as their codes.
\<close>

definition char_to_val :: "c_int \<Rightarrow> u8 \<times> debug list" where
  "char_to_val userInput =
     (if userInput = of_char CHR ''1'' then (0, [])
      else if userInput = of_char CHR ''2'' then (1, [])
      else if userInput = of_char CHR ''3'' then (2, [])
      else if userInput = of_char CHR ''4'' then (3, [])
      else if userInput = of_char CHR ''q'' then (4, [])
      else if userInput = of_char CHR ''w'' then (5, [])
      else if userInput = of_char CHR ''e'' then (6, [])
      else if userInput = of_char CHR ''r'' then (7, [])
      else if userInput = of_char CHR ''a'' then (8, [])
      else if userInput = of_char CHR ''s'' then (9, [])
      else if userInput = of_char CHR ''d'' then (10, [])
      else if userInput = of_char CHR ''f'' then (11, [])
      else if userInput = of_char CHR ''z'' then (12, [])
      else if userInput = of_char CHR ''x'' then (13, [])
      else if userInput = of_char CHR ''c'' then (14, [])
      else if userInput = of_char CHR ''v'' then (15, [])
      else (16, [UnsupportedKey]))"

text \<open>The sixteen characters that have a case label, in the order of the switch.\<close>

definition key_chars :: "c_int list" where
  "key_chars = map of_char ''1234qwerasdfzxcv''"

section \<open>The interpreter loop of \<^verbatim>\<open>main\<close>\<close>

text \<open>
  The variables \<^verbatim>\<open>main\<close> declares for the interpreter. There is no register file:
  the only registers are the index register and the program counter.
\<close>

record chip8 =
  mem :: "u8 list"
  display :: "u8 list list"
  stack :: "u16 list"
  delay_timer :: u8
  sound_timer :: u8
  reg_index :: u16
  pc :: u16
  "interpret" :: u8

text \<open>The fields the loop body computes from the instruction word: masks, not shifted.\<close>

record decoded =
  op :: u16
  X :: u16
  Y :: u16
  N :: u16
  NN :: u16
  NNN :: u16

definition decode :: "u16 \<Rightarrow> decoded" where
  "decode instr =
     \<lparr>op = instr AND 0xF000,
      X = instr AND 0x0F00,
      Y = instr AND 0x00F0,
      N = instr AND 0x000F,
      NN = instr AND 0x00FF,
      NNN = instr AND 0x0FFF\<rparr>"

text \<open>
  Fetch: \<^verbatim>\<open>instr = mem[pc] << 8 | mem[pc + 1]; pc += 2;\<close>. The bytes are promoted to
  \<^verbatim>\<open>int\<close> for the shift and the OR, and the result is converted to 16 bits; the index
  \<^verbatim>\<open>pc + 1\<close> is computed in \<^verbatim>\<open>int\<close> and does not wrap, whereas \<^verbatim>\<open>pc += 2\<close> does.
\<close>

definition fetch :: "chip8 \<Rightarrow> (u16 \<times> chip8) option" where
  "fetch s =
     (case array_read (mem s) (unat (pc s)) of
        None \<Rightarrow> None
      | Some hi \<Rightarrow>
          (case array_read (mem s) (unat (pc s) + 1) of
             None \<Rightarrow> None
           | Some lo \<Rightarrow>
               Some (ucast (push_bit 8 (ucast hi :: c_int) OR ucast lo),
                     s\<lparr>pc := pc s + 2\<rparr>)))"

text \<open>
  Execute: \<^verbatim>\<open>switch (instr) { case 0x00E0: /* clear screen */ break; }\<close>. The one
  case has an empty body and there is no default.
\<close>

definition execute :: "u16 \<Rightarrow> chip8 \<Rightarrow> chip8" where
  "execute instr s = (if instr = 0x00E0 then s else s)"

definition step :: "chip8 \<Rightarrow> chip8 option" where
  "step s =
     (case fetch s of
        None \<Rightarrow> None
      | Some (instr, s1) \<Rightarrow>
          (let d = decode instr in Some (execute instr s1)))"

text \<open>The declarations at the head of \<^verbatim>\<open>main\<close>, with the call that loads the font.\<close>

definition init :: "chip8 option" where
  "init =
     (case add_fonts_to_mem (replicate 4096 0) of
        None \<Rightarrow> None
      | Some ram \<Rightarrow>
          Some \<lparr>mem = ram,
                display = replicate 32 (replicate 64 0),
                stack = replicate 4096 0,
                delay_timer = 0,
                sound_timer = 0,
                reg_index = 0,
                pc = 512,
                interpret = 1\<rparr>)"

text \<open>
  \<^verbatim>\<open>while (interpret) { ... } mem[80] = 0xF0; return 0;\<close> with a bound on the number
  of iterations: \<open>Still_running s\<close> is the state at the head of the loop when the
  bound is used up, \<open>Returned c s\<close> the state in which \<^verbatim>\<open>main\<close> returns \<open>c\<close>,
  \<open>Undefined\<close> an access outside an array.
\<close>

datatype run = Undefined | Still_running chip8 | Returned c_int chip8

definition finish :: "chip8 \<Rightarrow> run" where
  "finish s =
     (case array_write (mem s) 80 0xF0 of
        None \<Rightarrow> Undefined
      | Some ram \<Rightarrow> Returned 0 (s\<lparr>mem := ram\<rparr>))"

fun main_loop :: "nat \<Rightarrow> chip8 \<Rightarrow> run" where
  "main_loop 0 s = (if interpret s = 0 then finish s else Still_running s)"
| "main_loop (Suc n) s =
     (if interpret s = 0 then finish s
      else (case step s of None \<Rightarrow> Undefined | Some s' \<Rightarrow> main_loop n s'))"

text \<open>
  Between the declarations and the loop, \<^verbatim>\<open>main\<close> opens a window and polls its
  events until a quit event arrives. That code touches none of the interpreter's
  variables; what matters of it is how it ends: \<^verbatim>\<open>SDL_Init\<close> fails or
  \<^verbatim>\<open>SDL_CreateWindow\<close> fails, and \<^verbatim>\<open>main\<close> returns 1, or the window is closed
  and \<^verbatim>\<open>main\<close> goes on to the loop. While no quit event arrives the state stays the
  initial one.
\<close>

datatype window = Init_failed | Create_failed | Closed

definition main_prog :: "window \<Rightarrow> nat \<Rightarrow> run" where
  "main_prog w n =
     (case init of
        None \<Rightarrow> Undefined
      | Some s0 \<Rightarrow>
          (case w of
             Init_failed \<Rightarrow> Returned 1 s0
           | Create_failed \<Rightarrow> Returned 1 s0
           | Closed \<Rightarrow> main_loop n s0))"

section \<open>Auxiliary definitions and sample states\<close>

text \<open>The glyph bytes of the first \<open>n\<close> rows of the font table, in the order the loops store them.\<close>

definition glyph_rows :: "nat \<Rightarrow> u8 list" where
  "glyph_rows n = concat (map (\<lambda>ii. map (\<lambda>jj. fontData ! ii ! jj) [0..<5]) [0..<n])"

definition empty_stack :: stack where
  "empty_stack = \<lparr>m = replicate 4096 0, needle = 0\<rparr>"

text \<open>The stack after 4096 pushes of 0 on the empty stack: every slot of the array is in use.\<close>

definition full_stack :: stack where
  "full_stack = \<lparr>m = replicate 4096 0, needle = 4096\<rparr>"

text \<open>
  A machine state as \<^verbatim>\<open>main\<close> sets it up, for a chosen memory, display and index
  register.
\<close>

definition machine :: "u8 list \<Rightarrow> u8 list list \<Rightarrow> u16 \<Rightarrow> chip8" where
  "machine ram disp idx =
     \<lparr>mem = ram, display = disp, stack = replicate 4096 0, delay_timer = 0,
      sound_timer = 0, reg_index = idx, pc = 512, interpret = 1\<rparr>"

definition blank :: "u8 list list" where
  "blank = replicate 32 (replicate 64 0)"

definition font_ram :: "u8 list" where
  "font_ram = replicate 80 0 @ concat fontData @ replicate 3936 0"

text \<open>The state in which \<^verbatim>\<open>main\<close> enters the loop.\<close>

definition booted :: chip8 where
  "booted = machine font_ram blank 0"

text \<open>Memory holding the word \<open>0x1234\<close> at the program counter.\<close>

definition sample_state :: chip8 where
  "sample_state = machine ((replicate 4096 0)[512 := 0x12, 513 := 0x34]) blank 0"

text \<open>Memory holding the word \<open>0xFFFF\<close>, which no case label matches.\<close>

definition ffff_state :: chip8 where
  "ffff_state = machine ((replicate 4096 0)[512 := 0xFF, 513 := 0xFF]) blank 0"

text \<open>Memory holding \<open>0x00E0\<close>, and a display whose top left pixel is lit.\<close>

definition lit_state :: chip8 where
  "lit_state = machine ((replicate 4096 0)[513 := 0xE0]) (blank[0 := (replicate 64 0)[0 := 1]]) 0"


section \<open>Facts about words and arrays\<close>

lemma cat_bytes_word:
  fixes hi lo :: u8
  shows "(ucast (push_bit 8 (ucast hi :: c_int) OR ucast lo) :: u16) = word_cat hi lo"
  by (rule bit_eqI) (auto simp add: bit_simps word_cat_eq_push_bit_or)

lemma unat_cat_bytes:
  fixes hi lo :: u8
  shows "unat (word_cat hi lo :: u16) = 256 * unat hi + unat lo"
proof -
  have h: "unat hi < 256" using unsigned_less [of hi] by simp
  have l: "unat lo < 256" using unsigned_less [of lo] by simp
  have "(word_cat hi lo :: u16) = push_bit 8 (ucast hi) + ucast lo"
    by (simp add: word_cat_eq)
  also have "\<dots> = of_nat (256 * unat hi + unat lo)"
    by (simp add: push_bit_eq_mult)
  finally have e: "(word_cat hi lo :: u16) = of_nat (256 * unat hi + unat lo)" .
  have "unat (of_nat (256 * unat hi + unat lo) :: u16)
      = (256 * unat hi + unat lo) mod 2 ^ LENGTH(16)"
    by (rule unat_of_nat)
  then have "unat (word_cat hi lo :: u16) = (256 * unat hi + unat lo) mod 2 ^ 16"
    unfolding e [symmetric] by simp
  moreover have "256 * unat hi + unat lo < 2 ^ 16" using h l by simp
  ultimately show ?thesis by simp
qed

lemma mask_x_in_place: "push_bit 8 (drop_bit 8 (w AND 0x0F00)) = (w AND 0x0F00 :: u16)"
proof -
  have "take_bit 8 (w AND 0x0F00) = 0"
    by (rule bit_eqI) (auto simp add: bit_simps bit_numeral_iff)
  then show ?thesis using bits_ident [of 8 "w AND 0x0F00"] by simp
qed

lemma mask_y_in_place: "push_bit 4 (drop_bit 4 (w AND 0x00F0)) = (w AND 0x00F0 :: u16)"
proof -
  have "take_bit 4 (w AND 0x00F0) = 0"
    by (rule bit_eqI) (auto simp add: bit_simps bit_numeral_iff)
  then show ?thesis using bits_ident [of 4 "w AND 0x00F0"] by simp
qed

lemma for_loop_append:
  "for_loop (xs @ ys) body s =
     (case for_loop xs body s of None \<Rightarrow> None | Some s' \<Rightarrow> for_loop ys body s')"
  by (induction xs arbitrary: s) (auto split: option.splits)

lemma update_middle: "length xs = i \<Longrightarrow> (xs @ y # ys)[i := v] = xs @ v # ys"
  by auto

section \<open>The keyboard mapping\<close>

lemma key_codes:
  "map (fst \<circ> char_to_val) key_chars = [0, 1, 2, 3, 4, 5, 6, 7, 8, 9, 10, 11, 12, 13, 14, 15]"
  by (simp add: key_chars_def char_to_val_def)

lemma key_chars_distinct: "distinct key_chars \<and> length key_chars = 16"
  by (simp add: key_chars_def)

lemma key_codes_inj: "inj_on (fst \<circ> char_to_val) (set key_chars)"
proof -
  have "distinct (map (fst \<circ> char_to_val) key_chars)"
    unfolding key_codes by simp
  then show ?thesis by (simp add: distinct_map)
qed

lemma key_silent: "c \<in> set key_chars \<Longrightarrow> fst (char_to_val c) < 16 \<and> snd (char_to_val c) = []"
  by (auto simp add: key_chars_def char_to_val_def)

lemma other_char: "c \<notin> set key_chars \<Longrightarrow> char_to_val c = (16, [UnsupportedKey])"
  by (simp add: key_chars_def char_to_val_def)

lemma char_to_val_le: "fst (char_to_val c) \<le> 16"
  by (simp add: char_to_val_def)

text \<open>
  Claim C10: for every input, \<open>char_to_val\<close> returns a value of at most 16. The sixteen
  characters \<open>1 2 3 4 q w e r a s d f z x c v\<close> are mapped, in this order, to the key
  codes 0 to 15, which are pairwise distinct and below 16, and nothing is printed for
  them; every other input yields 16, with the debug message.
\<close>

theorem char_to_val_table:
  "fst (char_to_val c) \<le> 16
   \<and> map (fst \<circ> char_to_val) key_chars = [0, 1, 2, 3, 4, 5, 6, 7, 8, 9, 10, 11, 12, 13, 14, 15]
   \<and> distinct key_chars \<and> length key_chars = 16
   \<and> inj_on (fst \<circ> char_to_val) (set key_chars)
   \<and> (c \<in> set key_chars \<longrightarrow> fst (char_to_val c) < 16 \<and> snd (char_to_val c) = [])
   \<and> (c \<notin> set key_chars \<longrightarrow> char_to_val c = (16, [UnsupportedKey]))"
  using char_to_val_le [of c] key_codes key_chars_distinct key_codes_inj
    key_silent [of c] other_char [of c]
  by blast

text \<open>
  The table at two inputs: the character \<open>q\<close>, which has a case label, and the
  character \<open>p\<close>, which has none.
\<close>

theorem char_to_val_table_witness:
  "of_char CHR ''q'' \<in> set key_chars \<and> char_to_val (of_char CHR ''q'') = (4, [])
   \<and> of_char CHR ''p'' \<notin> set key_chars
   \<and> char_to_val (of_char CHR ''p'') = (16, [UnsupportedKey])"
proof -
  have q: "of_char CHR ''q'' \<in> set key_chars" by (simp add: key_chars_def)
  have p: "of_char CHR ''p'' \<notin> set key_chars" by (simp add: key_chars_def)
  have v: "fst (char_to_val (of_char CHR ''q'')) = 4" by (simp add: char_to_val_def)
  from q char_to_val_table [of "of_char CHR ''q''"]
  have "snd (char_to_val (of_char CHR ''q'')) = []" by simp
  with v have "char_to_val (of_char CHR ''q'') = (4, [])" by (simp add: prod_eq_iff)
  with q p char_to_val_table [of "of_char CHR ''p''"] show ?thesis by simp
qed

section \<open>The stack\<close>

lemma push_in_array:
  assumes "stack_ok s" and "unat (needle s) < 4096"
  shows "push_stack s v
       = Some (s\<lparr>m := (m s)[unat (needle s) := v], needle := needle s + 1\<rparr>, [])"
proof -
  from assms have lt: "needle s < 0xFFFF"
    by (simp add: word_less_nat_alt)
  show ?thesis
    using assms lt by (simp add: push_stack_def array_write_def stack_ok_def)
qed

lemma push_past_array:
  assumes "stack_ok s" and "4096 \<le> unat (needle s)" and "needle s < 0xFFFF"
  shows "push_stack s v = None"
  using assms by (simp add: push_stack_def array_write_def stack_ok_def)

lemma push_at_guard: "needle s = 0xFFFF \<Longrightarrow> push_stack s v = Some (s, [NoMoreSpace 0xFFFF])"
  by (simp add: push_stack_def)

text \<open>What a pop right after a push returns: the slot above the one just written.\<close>

lemma pop_after_push:
  assumes "stack_ok s" and "unat (needle s) + 1 < 4096"
  shows "pop_stack (s\<lparr>m := (m s)[unat (needle s) := v], needle := needle s + 1\<rparr>)
       = Some (m s ! (unat (needle s) + 1), s\<lparr>m := (m s)[unat (needle s) := v]\<rparr>, [])"
proof -
  from assms have n1: "unat (needle s + 1) = unat (needle s) + 1"
    by (simp add: unat_word_ariths)
  then have pos: "0 < needle s + 1"
    by (simp add: word_less_nat_alt)
  show ?thesis
    using assms pos n1 by (simp add: pop_stack_def array_read_def stack_ok_def)
qed

text \<open>Pushes succeed as long as they stay inside the array, so twelve of them always do.\<close>

lemma push_all_in_array:
  "stack_ok s \<Longrightarrow> unat (needle s) + length vs \<le> 4096 \<Longrightarrow>
   \<exists>s'. push_all s vs = Some (s', []) \<and> stack_ok s'
      \<and> unat (needle s') = unat (needle s) + length vs"
proof (induction vs arbitrary: s)
  case Nil
  then show ?case by simp
next
  case (Cons v vs)
  let ?s1 = "s\<lparr>m := (m s)[unat (needle s) := v], needle := needle s + 1\<rparr>"
  from Cons.prems have lt: "unat (needle s) < 4096" by simp
  have p: "push_stack s v = Some (?s1, [])"
    using push_in_array [OF Cons.prems(1) lt] .
  have ok1: "stack_ok ?s1"
    using Cons.prems(1) by (simp add: stack_ok_def)
  have n1: "unat (needle ?s1) = unat (needle s) + 1"
    using lt by (simp add: unat_word_ariths)
  have "unat (needle ?s1) + length vs \<le> 4096"
    using Cons.prems(2) n1 by simp
  from Cons.IH [OF ok1 this] obtain s' where
    "push_all ?s1 vs = Some (s', [])" "stack_ok s'"
    "unat (needle s') = unat (needle ?s1) + length vs"
    by blast
  then show ?case using p n1 by simp
qed

lemma twelve_pushes:
  assumes "length vs = 12"
  shows "\<exists>s'. push_all empty_stack vs = Some (s', []) \<and> unat (needle s') = 12"
proof -
  have "stack_ok empty_stack" by (simp add: stack_ok_def empty_stack_def)
  moreover have "unat (needle empty_stack) + length vs \<le> 4096"
    using assms by (simp add: empty_stack_def)
  ultimately obtain s' where "push_all empty_stack vs = Some (s', [])"
    "unat (needle s') = unat (needle empty_stack) + length vs"
    using push_all_in_array by blast
  then show ?thesis using assms by (simp add: empty_stack_def)
qed

text \<open>
  Claim C2, at the empty stack and the value \<open>0x0ABC\<close>: the push stores the value in
  slot 0 and moves the needle to 1; the pop that follows reads slot 1, so it returns 0
  and not the value pushed. Only the depth is back where it was.
\<close>

theorem pop_after_push_reads_slot_above:
  "push_stack empty_stack 0x0ABC
     = Some (\<lparr>m = (replicate 4096 0)[0 := 0x0ABC], needle = 1\<rparr>, [])
   \<and> pop_stack \<lparr>m = (replicate 4096 0)[0 := 0x0ABC], needle = 1\<rparr>
     = Some (0, \<lparr>m = (replicate 4096 0)[0 := 0x0ABC], needle = 0\<rparr>, [])"
  by (simp add: push_stack_def pop_stack_def array_write_def array_read_def empty_stack_def)

text \<open>
  Claim C5, at the stack whose 4096 slots are all in use: the guard of \<open>push_stack\<close>
  compares the needle with 65535, so the push is not refused; it stores into
  \<^verbatim>\<open>m[4096]\<close>, outside the array.
\<close>

theorem push_on_full_array_is_not_refused:
  "stack_ok full_stack \<and> unat (needle full_stack) = length (m full_stack)
   \<and> needle full_stack < 0xFFFF \<and> push_stack full_stack 0x0200 = None"
  by (simp add: push_stack_def array_write_def full_stack_def stack_ok_def)




section \<open>Loading the font\<close>

lemma write_run:
  "base + n \<le> length r \<Longrightarrow>
   for_loop [0..<n] (\<lambda>jj r. array_write r (base + jj) (f jj)) r
     = Some (take base r @ map f [0..<n] @ drop (base + n) r)"
proof (induction n)
  case 0
  then show ?case by simp
next
  case (Suc n)
  let ?r' = "take base r @ map f [0..<n] @ drop (base + n) r"
  from Suc.prems have lt: "base + n < length r" by simp
  then have IH: "for_loop [0..<n] (\<lambda>jj r. array_write r (base + jj) (f jj)) r = Some ?r'"
    using Suc.IH by simp
  have d: "drop (base + n) r = r ! (base + n) # drop (Suc (base + n)) r"
    using lt by (simp add: Cons_nth_drop_Suc)
  have len: "length (take base r @ map f [0..<n]) = base + n"
    using lt by simp
  have "?r'[base + n := f n] = (take base r @ map f [0..<n]) @ f n # drop (Suc (base + n)) r"
    using update_middle [OF len, of "r ! (base + n)" "drop (Suc (base + n)) r" "f n"] d
    by simp
  moreover have "length ?r' = length r" using lt by simp
  ultimately have w: "array_write ?r' (base + n) (f n)
      = Some (take base r @ map f [0..<Suc n] @ drop (base + Suc n) r)"
    using lt by (simp add: array_write_def)
  show ?case
    unfolding upt_Suc_append [OF le0] for_loop_append IH
    using w by simp
qed

lemma length_glyph_rows: "length (glyph_rows n) = 5 * n"
  by (induction n) (simp_all add: glyph_rows_def)

lemma glyph_rows_Suc:
  "glyph_rows (Suc n) = glyph_rows n @ map (\<lambda>jj. fontData ! n ! jj) [0..<5]"
  by (simp add: glyph_rows_def)

lemma write_rows:
  "80 + 5 * n \<le> length r \<Longrightarrow>
   for_loop [0..<n] (\<lambda>ii.
       for_loop [0..<5] (\<lambda>jj r. array_write r (80 + ii * 5 + jj) (fontData ! ii ! jj))) r
     = Some (take 80 r @ glyph_rows n @ drop (80 + 5 * n) r)"
proof (induction n)
  case 0
  then show ?case by (simp add: glyph_rows_def)
next
  case (Suc n)
  let ?r' = "take 80 r @ glyph_rows n @ drop (80 + 5 * n) r"
  from Suc.prems have le: "80 + 5 * n + 5 \<le> length r" by simp
  then have IH: "for_loop [0..<n] (\<lambda>ii.
       for_loop [0..<5] (\<lambda>jj r. array_write r (80 + ii * 5 + jj) (fontData ! ii ! jj))) r
     = Some ?r'"
    using Suc.IH by simp
  have len: "length ?r' = length r"
    using le by (simp add: length_glyph_rows)
  have tk: "take (80 + n * 5) ?r' = take 80 r @ glyph_rows n"
    using le by (simp add: length_glyph_rows)
  have dr: "drop (80 + n * 5 + 5) ?r' = drop (80 + 5 * Suc n) r"
    using le by (simp add: length_glyph_rows add.commute mult.commute)
  have "80 + n * 5 + 5 \<le> length ?r'" using le len by simp
  from write_run [OF this, of "\<lambda>jj. fontData ! n ! jj"]
  have inner: "for_loop [0..<5]
        (\<lambda>jj r. array_write r (80 + n * 5 + jj) (fontData ! n ! jj)) ?r'
      = Some (take 80 r @ glyph_rows (Suc n) @ drop (80 + 5 * Suc n) r)"
    unfolding tk dr by (simp add: glyph_rows_Suc)
  show ?case
    unfolding upt_Suc_append [OF le0] for_loop_append IH
    using inner by simp
qed

lemma upt_5: "[0..<5] = [0, 1, 2, 3, 4]"
  by (simp add: upt_conv_Cons)

lemma upt_16: "[0..<16] = [0, 1, 2, 3, 4, 5, 6, 7, 8, 9, 10, 11, 12, 13, 14, 15]"
  by (simp add: upt_conv_Cons)

lemma glyph_rows_16: "glyph_rows 16 = concat fontData"
  by (simp add: glyph_rows_def fontData_def upt_5 upt_16)

lemma length_font: "length (concat fontData) = 80"
  by (simp add: fontData_def)

lemma font_shape: "length fontData = 16 \<and> list_all (\<lambda>g. length g = 5) fontData"
  by (simp add: fontData_def)

text \<open>
  On an array of at least 160 bytes the two loops replace the bytes 80 to 159 by the
  font table, row after row, and touch nothing else.
\<close>

lemma add_fonts_to_mem_eq:
  assumes "160 \<le> length r"
  shows "add_fonts_to_mem r = Some (take 80 r @ concat fontData @ drop 160 r)"
proof -
  from assms have "80 + 5 * 16 \<le> length r" by simp
  from write_rows [OF this] show ?thesis
    by (simp add: add_fonts_to_mem_def glyph_rows_16)
qed

lemma init_eq: "init = Some booted"
proof -
  have "add_fonts_to_mem (replicate 4096 0) = Some font_ram"
    using add_fonts_to_mem_eq [of "replicate 4096 0"] by (simp add: font_ram_def)
  then show ?thesis by (simp add: init_def booted_def machine_def blank_def)
qed

lemma length_font_ram: "length font_ram = 4096"
  by (simp add: font_ram_def length_font)

lemma glyph_bytes_font_ram: "glyph_bytes font_ram = concat fontData"
  by (simp add: glyph_bytes_def font_ram_def length_font)

lemma font_ram_80: "font_ram ! 80 = 0xF0"
  by (simp add: font_ram_def nth_append fontData_def)

lemma font_ram_high: "160 \<le> i \<Longrightarrow> i < 4096 \<Longrightarrow> font_ram ! i = 0"
  by (auto simp add: font_ram_def nth_append length_font)

section \<open>The interpreter loop\<close>

lemma fetch_defined:
  assumes "unat (pc s) + 1 < length (mem s)"
  shows "fetch s = Some (word_cat (mem s ! unat (pc s)) (mem s ! (unat (pc s) + 1)),
                         s\<lparr>pc := pc s + 2\<rparr>)"
  using assms by (simp add: fetch_def array_read_def cat_bytes_word)

lemma fetch_undefined:
  assumes "\<not> unat (pc s) + 1 < length (mem s)"
  shows "fetch s = None"
  using assms by (auto simp add: fetch_def array_read_def split: option.splits)

lemma fetch_state: "fetch s = Some (instr, s1) \<Longrightarrow> s1 = s\<lparr>pc := pc s + 2\<rparr>"
  by (auto simp add: fetch_def split: option.splits)

lemma execute_id: "execute instr s = s"
  by (simp add: execute_def)

lemma step_eq: "step s = Some s' \<Longrightarrow> s' = s\<lparr>pc := pc s + 2\<rparr>"
  by (auto simp add: step_def execute_id Let_def dest: fetch_state split: option.splits)

lemma main_loop_running:
  "interpret s \<noteq> 0 \<Longrightarrow> main_loop n s = Still_running s' \<Longrightarrow>
   mem s' = mem s \<and> interpret s' = interpret s"
proof (induction n arbitrary: s)
  case 0
  then show ?case by simp
next
  case (Suc n)
  from Suc.prems obtain s1 where st: "step s = Some s1" and r: "main_loop n s1 = Still_running s'"
    by (auto split: option.splits)
  from step_eq [OF st] have e: "mem s1 = mem s" "interpret s1 = interpret s" by simp_all
  with Suc.prems(1) have "interpret s1 \<noteq> 0" by simp
  from Suc.IH [OF this r] e show ?case by simp
qed

lemma main_loop_never_returns:
  "interpret s \<noteq> 0 \<Longrightarrow> main_loop n s \<noteq> Returned c s'"
proof (induction n arbitrary: s)
  case 0
  then show ?case by simp
next
  case (Suc n)
  show ?case
  proof (cases "step s")
    case None
    with Suc.prems show ?thesis by simp
  next
    case (Some s1)
    from step_eq [OF Some] Suc.prems have "interpret s1 \<noteq> 0" by simp
    from Suc.IH [OF this] Some Suc.prems show ?thesis by simp
  qed
qed

lemma finish_same:
  assumes "80 < length (mem s)" and "mem s ! 80 = 0xF0"
  shows "finish s = Returned 0 s"
proof -
  have "(mem s)[80 := 0xF0] = mem s"
    using assms(2) list_update_id [of "mem s" 80] by simp
  then show ?thesis using assms(1) by (simp add: finish_def array_write_def)
qed

text \<open>
  Claim C1: in an iteration of the loop whose two instruction bytes lie inside the
  memory array, the word fetched is the byte at \<open>pc\<close> as high byte and the byte at
  \<open>pc + 1\<close> as low byte, and the switch runs on the state in which \<open>pc\<close> has already
  been advanced by 2.
\<close>

theorem fetch_big_endian_then_advance:
  assumes "unat (pc s) + 1 < length (mem s)"
  shows "\<exists>instr.
           fetch s = Some (instr, s\<lparr>pc := pc s + 2\<rparr>)
         \<and> instr = word_cat (mem s ! unat (pc s)) (mem s ! (unat (pc s) + 1))
         \<and> unat instr = 256 * unat (mem s ! unat (pc s)) + unat (mem s ! (unat (pc s) + 1))
         \<and> step s = Some (execute instr (s\<lparr>pc := pc s + 2\<rparr>))
         \<and> (interpret s \<noteq> 0 \<longrightarrow>
              main_loop (Suc n) s = main_loop n (execute instr (s\<lparr>pc := pc s + 2\<rparr>)))"
  using fetch_defined [OF assms]
  by (simp add: unat_cat_bytes step_def)

text \<open>The bytes \<open>0x12\<close>, \<open>0x34\<close> at addresses 512 and 513 are fetched as \<open>0x1234\<close>.\<close>

theorem fetch_big_endian_then_advance_witness:
  "unat (pc sample_state) + 1 < length (mem sample_state)
   \<and> fetch sample_state = Some (0x1234, sample_state\<lparr>pc := 514\<rparr>)
   \<and> step sample_state = Some (execute 0x1234 (sample_state\<lparr>pc := 514\<rparr>))
   \<and> interpret sample_state \<noteq> 0
   \<and> main_loop (Suc 0) sample_state
     = main_loop 0 (execute 0x1234 (sample_state\<lparr>pc := 514\<rparr>))"
proof -
  have h: "unat (pc sample_state) + 1 < length (mem sample_state)"
    by (simp add: sample_state_def machine_def)
  have "pc sample_state + 2 = 514" "mem sample_state ! unat (pc sample_state) = 0x12"
    "mem sample_state ! (unat (pc sample_state) + 1) = 0x34"
    "interpret sample_state \<noteq> 0"
    by (simp_all add: sample_state_def machine_def)
  moreover have "(word_cat (0x12 :: u8) (0x34 :: u8) :: u16) = 0x1234"
    by (simp add: word_cat_eq)
  ultimately show ?thesis
    using h fetch_big_endian_then_advance [OF h, of 0] by auto
qed

text \<open>
  Claim C3, as the code has it: the decoder computes every field as the instruction
  word under a mask. \<open>op\<close>, \<open>N\<close>, \<open>NN\<close> and \<open>NNN\<close> are the fields of the claim; \<open>X\<close>
  and \<open>Y\<close> are left where they stand in the word, so they are the shifted values of the
  claim moved back by 8 and by 4 bits.
\<close>

theorem decode_masks_in_place:
  "decode w = \<lparr>op = w AND 0xF000, X = w AND 0x0F00, Y = w AND 0x00F0,
               N = w AND 0x000F, NN = w AND 0x00FF, NNN = w AND 0x0FFF\<rparr>
   \<and> X (decode w) = push_bit 8 (drop_bit 8 (w AND 0x0F00))
   \<and> Y (decode w) = push_bit 4 (drop_bit 4 (w AND 0x00F0))"
proof -
  have d: "decode w = \<lparr>op = w AND 0xF000, X = w AND 0x0F00, Y = w AND 0x00F0,
                        N = w AND 0x000F, NN = w AND 0x00FF, NNN = w AND 0x0FFF\<rparr>"
    by (simp add: decode_def)
  have x: "X (decode w) = w AND 0x0F00" and y: "Y (decode w) = w AND 0x00F0"
    by (simp_all add: decode_def)
  show ?thesis
    by (intro conjI d) (simp_all only: x y mask_x_in_place mask_y_in_place)
qed

text \<open>
  Against claim C3 as stated: for the word \<open>0x1234\<close> the decoder's \<open>X\<close> is \<open>0x200\<close>,
  not 2, and its \<open>Y\<close> is \<open>0x30\<close>, not 3; neither is in the range 0 to 15.
\<close>

theorem decode_counterexample:
  "X (decode 0x1234) \<noteq> drop_bit 8 (0x1234 AND 0x0F00)
   \<and> Y (decode 0x1234) \<noteq> drop_bit 4 (0x1234 AND 0x00F0)
   \<and> unat (X (decode 0x1234)) = 512 \<and> unat (Y (decode 0x1234)) = 48"
  by (simp add: decode_def)

text \<open>
  Claim C9, as the code has it: an instruction word other than \<open>0x00E0\<close> matches no
  case of the switch and is passed over. The state after the iteration is the state
  before it with \<open>pc\<close> advanced by 2, nothing is reported, and the loop goes on with
  the next word.
\<close>

theorem unmatched_word_is_passed_over:
  assumes "fetch s = Some (instr, s1)" and "instr \<noteq> 0x00E0"
  shows "execute instr s1 = s1
       \<and> step s = Some (s\<lparr>pc := pc s + 2\<rparr>)
       \<and> (interpret s \<noteq> 0 \<longrightarrow> main_loop (Suc n) s = main_loop n (s\<lparr>pc := pc s + 2\<rparr>))"
  using assms fetch_state [OF assms(1)]
  by (simp add: step_def execute_def)

lemma fetch_ffff: "fetch ffff_state = Some (0xFFFF, ffff_state\<lparr>pc := 514\<rparr>)"
  by (simp add: fetch_def array_read_def ffff_state_def machine_def)

theorem unmatched_word_is_passed_over_witness:
  "fetch ffff_state = Some (0xFFFF, ffff_state\<lparr>pc := 514\<rparr>) \<and> (0xFFFF :: u16) \<noteq> 0x00E0
   \<and> execute 0xFFFF (ffff_state\<lparr>pc := 514\<rparr>) = ffff_state\<lparr>pc := 514\<rparr>
   \<and> step ffff_state = Some (ffff_state\<lparr>pc := 514\<rparr>)
   \<and> interpret ffff_state \<noteq> 0
   \<and> main_loop (Suc 0) ffff_state = main_loop 0 (ffff_state\<lparr>pc := 514\<rparr>)"
proof -
  have ne: "(0xFFFF :: u16) \<noteq> 0x00E0" by simp
  have "pc ffff_state + 2 = 514" "interpret ffff_state \<noteq> 0"
    by (simp_all add: ffff_state_def machine_def)
  with unmatched_word_is_passed_over [OF fetch_ffff ne, of 0] fetch_ffff ne
  show ?thesis by simp
qed

text \<open>
  Against claim C9 as stated: the word \<open>0xFFFF\<close> is fetched, the iteration ends in an
  ordinary state that differs from the one before only in \<open>pc\<close>, and the loop is
  still running after it.
\<close>

theorem unknown_instruction_counterexample:
  "fetch (machine ((replicate 4096 0)[512 := 0xFF, 513 := 0xFF]) blank 0)
     = Some (0xFFFF, (machine ((replicate 4096 0)[512 := 0xFF, 513 := 0xFF]) blank 0)\<lparr>pc := 514\<rparr>)
   \<and> main_loop 1 (machine ((replicate 4096 0)[512 := 0xFF, 513 := 0xFF]) blank 0)
     = Still_running ((machine ((replicate 4096 0)[512 := 0xFF, 513 := 0xFF]) blank 0)\<lparr>pc := 514\<rparr>)"
  by (simp add: fetch_def step_def execute_def array_read_def machine_def)

text \<open>
  Claim C7, at a display whose top left pixel is lit: the word \<open>0x00E0\<close> is fetched
  and executed, and the pixel is still lit afterwards. The case of the switch is
  empty, so the display is not written.
\<close>

theorem clear_screen_leaves_pixel_lit:
  "fetch lit_state = Some (0x00E0, lit_state\<lparr>pc := 514\<rparr>)
   \<and> step lit_state = Some (lit_state\<lparr>pc := 514\<rparr>)
   \<and> display (lit_state\<lparr>pc := 514\<rparr>) ! 0 ! 0 = 1"
  by (simp add: fetch_def step_def execute_def array_read_def lit_state_def machine_def blank_def)






text \<open>
  Claim C8: the initialisation of \<^verbatim>\<open>main\<close> calls \<open>add_fonts_to_mem\<close> once, on the
  zeroed memory, which puts the 16 glyphs of 5 bytes at the addresses 80 to 159. From
  the state it produces, the memory is the same at the head of every iteration of the
  loop and wherever \<^verbatim>\<open>main\<close> returns: the loop body never writes memory, and the
  store \<^verbatim>\<open>mem[80] = 0xF0\<close> after the loop writes the byte that the font has there.
\<close>

theorem font_loaded_once_and_kept:
  assumes "init = Some s0"
  shows "glyph_bytes (mem s0) = concat fontData
       \<and> length fontData = 16 \<and> list_all (\<lambda>g. length g = 5) fontData
       \<and> (main_prog w n = Still_running s \<or> main_prog w n = Returned c s \<longrightarrow> mem s = mem s0)
       \<and> (mem s = mem s0 \<longrightarrow> finish s = Returned 0 s)"
proof -
  from assms have s0: "s0 = booted" by (simp add: init_eq)
  have ram: "mem s0 = font_ram" and run: "interpret s0 \<noteq> 0"
    by (simp_all add: s0 booted_def machine_def)
  have a: "glyph_bytes (mem s0) = concat fontData"
    by (simp add: ram glyph_bytes_font_ram)
  have b: "main_prog w n = Still_running s \<or> main_prog w n = Returned c s \<longrightarrow> mem s = mem s0"
  proof (cases w)
    case Closed
    then have "main_prog w n = main_loop n s0"
      by (simp add: main_prog_def assms)
    then show ?thesis
      using main_loop_running [OF run, of n s] main_loop_never_returns [OF run, of n c s]
      by simp
  qed (auto simp add: main_prog_def assms)
  have c: "mem s = mem s0 \<longrightarrow> finish s = Returned 0 s"
  proof
    assume "mem s = mem s0"
    then have "80 < length (mem s)" "mem s ! 80 = 0xF0"
      by (simp_all add: ram length_font_ram font_ram_80)
    then show "finish s = Returned 0 s" by (rule finish_same)
  qed
  from a b c font_shape show ?thesis by simp
qed

lemma two_iterations: "main_loop 2 booted = Still_running (booted\<lparr>pc := 516\<rparr>)"
proof -
  have f1: "fetch booted = Some (0, booted\<lparr>pc := 514\<rparr>)"
    by (simp add: fetch_def array_read_def booted_def machine_def length_font_ram font_ram_high)
  have f2: "fetch (booted\<lparr>pc := 514\<rparr>) = Some (0, booted\<lparr>pc := 516\<rparr>)"
    by (simp add: fetch_def array_read_def booted_def machine_def length_font_ram font_ram_high)
  have r: "interpret booted \<noteq> 0" by (simp add: booted_def machine_def)
  have "main_loop (Suc (Suc 0)) booted = Still_running (booted\<lparr>pc := 516\<rparr>)"
    using f1 f2 r by (simp add: step_def execute_id)
  then show ?thesis by (simp add: numeral_2_eq_2)
qed

text \<open>
  After the initialisation and after two iterations the font is in place, and the store
  after the loop would leave that state as it is.
\<close>

theorem font_loaded_once_and_kept_witness:
  "init = Some booted
   \<and> main_prog Closed 2 = Still_running (booted\<lparr>pc := 516\<rparr>)
   \<and> glyph_bytes (mem booted) = concat fontData
   \<and> mem (booted\<lparr>pc := 516\<rparr>) = mem booted
   \<and> finish (booted\<lparr>pc := 516\<rparr>) = Returned 0 (booted\<lparr>pc := 516\<rparr>)"
proof -
  have "main_prog Closed 2 = Still_running (booted\<lparr>pc := 516\<rparr>)"
    by (simp add: main_prog_def init_eq two_iterations)
  with font_loaded_once_and_kept [OF init_eq, of Closed 2 "booted\<lparr>pc := 516\<rparr>" 0] init_eq
  show ?thesis by simp
qed

end
